theory Spec2Isabelle
  imports Main
begin

section \<open>Go strings: bytes, runes and the range loop\<close>

text \<open>
  A Go string is a sequence of bytes, here a \<open>string\<close> (a list of 8-bit \<open>char\<close>s).
  Both loops of the repository are \<^verbatim>\<open>for i, char := range input\<close>: the language
  decodes one UTF-8 sequence per iteration, \<open>char\<close> is the decoded code point (a rune),
  \<open>i\<close> is the byte offset where the sequence starts, and a byte that starts no valid
  sequence is decoded as \<open>RuneError\<close> (U+FFFD) of width one.
\<close>

type_synonym rune = nat

definition RuneError :: rune where
  "RuneError = 65533"

text \<open>
  The size of the sequence a lead byte announces and the range its second byte must lie
  in; \<open>None\<close> for a byte that is no lead byte of a multi-byte sequence.
\<close>

definition acceptRange :: "nat \<Rightarrow> (nat \<times> nat \<times> nat) option" where
  "acceptRange b =
     (if 194 \<le> b \<and> b \<le> 223 then Some (2, 128, 191)
      else if b = 224 then Some (3, 160, 191)
      else if (225 \<le> b \<and> b \<le> 236) \<or> b = 238 \<or> b = 239 then Some (3, 128, 191)
      else if b = 237 then Some (3, 128, 159)
      else if b = 240 then Some (4, 144, 191)
      else if 241 \<le> b \<and> b \<le> 243 then Some (4, 128, 191)
      else if b = 244 then Some (4, 128, 143)
      else None)"

text \<open>
  \<open>decodeRune c cs\<close> decodes the sequence that starts with the byte \<open>c\<close> and goes on
  in \<open>cs\<close>; it returns the rune and the number of bytes of \<open>cs\<close> it consumed (the width
  less one). Masking and shifting are written as \<open>mod\<close> and multiplication.
\<close>

definition decodeRune :: "char \<Rightarrow> string \<Rightarrow> rune \<times> nat" where
  "decodeRune c cs =
     (let s0 = of_char c in
      if s0 < 128 then (s0, 0)
      else case acceptRange s0 of
        None \<Rightarrow> (RuneError, 0)
      | Some (sz, lo, hi) \<Rightarrow>
          if length cs + 1 < sz then (RuneError, 0)
          else let s1 = of_char (cs ! 0) in
            if s1 < lo \<or> hi < s1 then (RuneError, 0)
            else if sz \<le> 2 then ((s0 mod 32) * 64 + s1 mod 64, 1)
            else let s2 = of_char (cs ! 1) in
              if s2 < 128 \<or> 191 < s2 then (RuneError, 0)
              else if sz \<le> 3 then ((s0 mod 16) * 4096 + (s1 mod 64) * 64 + s2 mod 64, 2)
              else let s3 = of_char (cs ! 2) in
                if s3 < 128 \<or> 191 < s3 then (RuneError, 0)
                else ((s0 mod 8) * 262144 + (s1 mod 64) * 4096 + (s2 mod 64) * 64
                        + s3 mod 64, 3))"

text \<open>The pairs (byte offset, rune) that a range loop over a string goes through.\<close>

fun rangeFrom :: "nat \<Rightarrow> string \<Rightarrow> (nat \<times> rune) list" where
  "rangeFrom i [] = []"
| "rangeFrom i (c # cs) =
     (case decodeRune c cs of
        (r, k) \<Rightarrow> (i, r) # rangeFrom (i + 1 + k) (drop k cs))"

definition rangeString :: "string \<Rightarrow> (nat \<times> rune) list" where
  "rangeString input = rangeFrom 0 input"

text \<open>
  The conversion \<^verbatim>\<open>string(char)\<close> of a rune: its UTF-8 encoding, and the encoding of
  U+FFFD for a surrogate or a value beyond U+10FFFF.
\<close>

definition runeToString :: "rune \<Rightarrow> string" where
  "runeToString r =
     (if r < 128 then [char_of r]
      else if r < 2048 then [char_of (192 + r div 64), char_of (128 + r mod 64)]
      else if 1114111 < r \<or> (55296 \<le> r \<and> r \<le> 57343) then
        [char_of (239::nat), char_of (191::nat), char_of (189::nat)]
      else if r < 65536 then
        [char_of (224 + r div 4096), char_of (128 + (r div 64) mod 64),
         char_of (128 + r mod 64)]
      else
        [char_of (240 + r div 262144), char_of (128 + (r div 4096) mod 64),
         char_of (128 + (r div 64) mod 64), char_of (128 + r mod 64)])"

section \<open>Slices and their backing arrays\<close>

text \<open>
  A Go slice is a reference to a backing array: copying a slice value copies the
  reference, and a write through either copy is seen through the other. The store holds
  the backing arrays of the slices of states and symbols, addressed by their index.
\<close>

type_synonym heap = "string list list"

record slice =
  ptr :: nat
  len :: nat

text \<open>A slice literal \<^verbatim>\<open>[]T{...}\<close> allocates a fresh backing array.\<close>

definition makeSlice :: "heap \<Rightarrow> string list \<Rightarrow> slice \<times> heap" where
  "makeSlice h xs = (\<lparr>ptr = length h, len = length xs\<rparr>, h @ [xs])"

text \<open>The elements a loop \<^verbatim>\<open>for _, s := range sl\<close> goes through.\<close>

definition elems :: "heap \<Rightarrow> slice \<Rightarrow> string list" where
  "elems h sl = (if ptr sl < length h then take (len sl) (h ! ptr sl) else [])"

text \<open>The assignment \<^verbatim>\<open>sl[i] = v\<close>; an index out of range panics (\<open>None\<close>).\<close>

definition setIndex :: "heap \<Rightarrow> slice \<Rightarrow> nat \<Rightarrow> string \<Rightarrow> heap option" where
  "setIndex h sl i v =
     (if ptr sl < length h \<and> i < len sl \<and> i < length (h ! ptr sl)
      then Some (h[ptr sl := (h ! ptr sl)[i := v]])
      else None)"

section \<open>Package fsm\<close>

type_synonym State = string
type_synonym Symbol = string
type_synonym TransitionFunction = "State \<Rightarrow> Symbol \<Rightarrow> State"

record FiniteAutomaton =
  States :: slice
  Alphabet :: slice
  InitialState :: State
  AcceptingStates :: slice
  TransitionFunction :: TransitionFunction

datatype fsm_error = InvalidSymbol Symbol nat "Symbol list"

definition NewFiniteAutomaton ::
  "slice \<Rightarrow> slice \<Rightarrow> State \<Rightarrow> slice \<Rightarrow> TransitionFunction \<Rightarrow> FiniteAutomaton" where
  "NewFiniteAutomaton states alphabet initialState acceptingStates transitionFunction =
     \<lparr>States = states, Alphabet = alphabet, InitialState = initialState,
      AcceptingStates = acceptingStates, TransitionFunction = transitionFunction\<rparr>"

fun containsString :: "string list \<Rightarrow> string \<Rightarrow> bool" where
  "containsString [] x = False"
| "containsString (s # ss) x = (if s = x then True else containsString ss x)"

definition isValidSymbol :: "heap \<Rightarrow> FiniteAutomaton \<Rightarrow> Symbol \<Rightarrow> bool" where
  "isValidSymbol h fa symbol = containsString (elems h (Alphabet fa)) symbol"

definition IsAcceptingState :: "heap \<Rightarrow> FiniteAutomaton \<Rightarrow> State \<Rightarrow> bool" where
  "IsAcceptingState h fa state = containsString (elems h (AcceptingStates fa)) state"

text \<open>
  The loop of \<open>ProcessInput\<close>, from the current state over the remaining (offset, rune)
  pairs of the input.
\<close>

fun processLoop ::
  "heap \<Rightarrow> FiniteAutomaton \<Rightarrow> State \<Rightarrow> (nat \<times> rune) list \<Rightarrow> fsm_error + State" where
  "processLoop h fa currentState [] = Inr currentState"
| "processLoop h fa currentState ((i, char) # rest) =
     (let symbol = runeToString char in
      if \<not> isValidSymbol h fa symbol
      then Inl (InvalidSymbol symbol i (elems h (Alphabet fa)))
      else processLoop h fa (TransitionFunction fa currentState symbol) rest)"

definition ProcessInput :: "heap \<Rightarrow> FiniteAutomaton \<Rightarrow> string \<Rightarrow> fsm_error + State" where
  "ProcessInput h fa input = processLoop h fa (InitialState fa) (rangeString input)"

definition GetStates :: "FiniteAutomaton \<Rightarrow> slice" where
  "GetStates fa = States fa"

definition GetAlphabet :: "FiniteAutomaton \<Rightarrow> slice" where
  "GetAlphabet fa = Alphabet fa"

definition GetInitialState :: "FiniteAutomaton \<Rightarrow> State" where
  "GetInitialState fa = InitialState fa"

definition GetAcceptingStates :: "FiniteAutomaton \<Rightarrow> slice" where
  "GetAcceptingStates fa = AcceptingStates fa"

section \<open>The call of strconv.ParseInt\<close>

text \<open>
  \<open>ModThree\<close> calls the standard library's \<^verbatim>\<open>strconv.ParseInt(input, 2, 64)\<close>. The model
  is the library's algorithm at base 2 and bit size 64: an optional sign, then
  \<open>ParseUint\<close>, which reads digit by digit into an unsigned 64-bit accumulator, fails
  with a syntax error at a byte that is no digit of the base and with a range error
  when the accumulator has reached the cutoff \<open>2 ^ 63\<close> before a further digit, and last
  the check that the magnitude fits a signed 64-bit integer.
\<close>

datatype num_err = ErrSyntax | ErrRange

fun parseUintLoop :: "nat \<Rightarrow> string \<Rightarrow> num_err + nat" where
  "parseUintLoop n [] = Inr n"
| "parseUintLoop n (c # cs) =
     (if c \<noteq> CHR ''0'' \<and> c \<noteq> CHR ''1'' then Inl ErrSyntax
      else let d = (if c = CHR ''1'' then 1 else 0) in
        if 2 ^ 63 \<le> n then Inl ErrRange
        else let n' = (n * 2) mod 2 ^ 64; n1 = (n' + d) mod 2 ^ 64 in
          if n1 < n' \<or> 2 ^ 64 - 1 < n1 then Inl ErrRange
          else parseUintLoop n1 cs)"

definition ParseUint :: "string \<Rightarrow> num_err + nat" where
  "ParseUint s = (if s = [] then Inl ErrSyntax else parseUintLoop 0 s)"

definition ParseInt :: "string \<Rightarrow> num_err + int" where
  "ParseInt s =
     (if s = [] then Inl ErrSyntax
      else let neg = (hd s = CHR ''-'');
               s1 = (if hd s = CHR ''+'' \<or> hd s = CHR ''-'' then tl s else s)
           in case ParseUint s1 of
                Inl ErrSyntax \<Rightarrow> Inl ErrSyntax
              | r \<Rightarrow>
                  let un = (case r of Inr u \<Rightarrow> u | Inl _ \<Rightarrow> 2 ^ 64 - 1) in
                  if \<not> neg \<and> 2 ^ 63 \<le> un then Inl ErrRange
                  else if neg \<and> 2 ^ 63 < un then Inl ErrRange
                  else Inr (if neg then - int un else int un))"

text \<open>Go's \<open>%\<close> on integers truncates towards zero: the result has the sign of the dividend.\<close>

definition goRem :: "int \<Rightarrow> int \<Rightarrow> int" where
  "goRem a b = (if 0 \<le> a then a mod \<bar>b\<bar> else - ((- a) mod \<bar>b\<bar>))"

section \<open>Package modthree\<close>

text \<open>
  \<open>int\<close> is 64 bits wide on the platforms considered, so the conversions
  \<^verbatim>\<open>int(binaryValue)\<close> and \<^verbatim>\<open>int(binaryValue % 3)\<close> of an \<open>int64\<close> keep the value.
\<close>

record ModThreeResult =
  Input :: string
  FinalState :: State
  Remainder :: int
  BinaryValue :: int
  DecimalValue :: int

record ModThreeFSM =
  automaton :: FiniteAutomaton

text \<open>
  The errors of \<open>ModThree\<close> are built with \<^verbatim>\<open>fmt.Errorf\<close>; each constructor stands for one
  message and carries the values the message is formatted from.
\<close>

datatype error =
    EmptyInput
  | InvalidDigit rune nat
  | FSMProcessingError fsm_error
  | BinaryParseError string num_err
  | VerificationMismatch int int

definition transitionFunction :: TransitionFunction where
  "transitionFunction currentState symbol =
     (if currentState = ''S0'' then
        (if symbol = ''0'' then ''S0''
         else if symbol = ''1'' then ''S1''
         else currentState)
      else if currentState = ''S1'' then
        (if symbol = ''0'' then ''S2''
         else if symbol = ''1'' then ''S0''
         else currentState)
      else if currentState = ''S2'' then
        (if symbol = ''0'' then ''S1''
         else if symbol = ''1'' then ''S2''
         else currentState)
      else currentState)"

definition NewModThreeFSM :: "heap \<Rightarrow> ModThreeFSM \<times> heap" where
  "NewModThreeFSM h0 =
     (let (states, h1) = makeSlice h0 [''S0'', ''S1'', ''S2''];
          (alphabet, h2) = makeSlice h1 [''0'', ''1''];
          initialState = ''S0'';
          (acceptingStates, h3) = makeSlice h2 [''S0'', ''S1'', ''S2''];
          automaton = NewFiniteAutomaton states alphabet initialState acceptingStates
                        transitionFunction
      in (\<lparr>automaton = automaton\<rparr>, h3))"

fun validateLoop :: "(nat \<times> rune) list \<Rightarrow> error option" where
  "validateLoop [] = None"
| "validateLoop ((i, char) # rest) =
     (if char \<noteq> 48 \<and> char \<noteq> 49 then Some (InvalidDigit char i)
      else validateLoop rest)"

definition validateInput :: "string \<Rightarrow> error option" where
  "validateInput input =
     (if input = [] then Some EmptyInput else validateLoop (rangeString input))"

definition stateToRemainder :: "State \<Rightarrow> int" where
  "stateToRemainder state =
     (if state = ''S0'' then 0
      else if state = ''S1'' then 1
      else if state = ''S2'' then 2
      else - 1)"

definition ModThree :: "heap \<Rightarrow> ModThreeFSM \<Rightarrow> string \<Rightarrow> error + ModThreeResult" where
  "ModThree h m input =
     (case validateInput input of
        Some err \<Rightarrow> Inl err
      | None \<Rightarrow>
         (case ProcessInput h (automaton m) input of
            Inl err \<Rightarrow> Inl (FSMProcessingError err)
          | Inr finalState \<Rightarrow>
              let remainder = stateToRemainder finalState in
              (case ParseInt input of
                 Inl err \<Rightarrow> Inl (BinaryParseError input err)
               | Inr binaryValue \<Rightarrow>
                   let expectedRemainder = goRem binaryValue 3 in
                   if remainder \<noteq> expectedRemainder
                   then Inl (VerificationMismatch remainder expectedRemainder)
                   else Inr \<lparr>Input = input, FinalState = finalState,
                             Remainder = remainder, BinaryValue = binaryValue,
                             DecimalValue = binaryValue\<rparr>)))"

text \<open>
  What a caller reads as \<^verbatim>\<open>result.Remainder\<close> after a call of \<open>ModThree\<close>: a value when
  the call returned a result, none when it returned an error.
\<close>

definition remainderOf :: "error + ModThreeResult \<Rightarrow> int option" where
  "remainderOf res = (case res of Inl err \<Rightarrow> None | Inr result \<Rightarrow> Some (Remainder result))"

definition GetAutomaton :: "ModThreeFSM \<Rightarrow> FiniteAutomaton" where
  "GetAutomaton m = automaton m"

section \<open>The value of a binary numeral\<close>

text \<open>
  The specification's reference value: the string read as a base-2 numeral, most
  significant digit first, with no bound on its size.
\<close>

definition binaryDigit :: "char \<Rightarrow> nat" where
  "binaryDigit c = (if c = CHR ''1'' then 1 else 0)"

definition parseBinaryFrom :: "nat \<Rightarrow> string \<Rightarrow> nat" where
  "parseBinaryFrom n s = foldl (\<lambda>n c. 2 * n + binaryDigit c) n s"

definition parseBinary :: "string \<Rightarrow> nat" where
  "parseBinary s = parseBinaryFrom 0 s"

definition isBinary :: "string \<Rightarrow> bool" where
  "isBinary s = (\<forall>c \<in> set s. c = CHR ''0'' \<or> c = CHR ''1'')"

section \<open>Decoding: the digits and every other byte\<close>

lemma of_char_binary:
  "((of_char c :: nat) = 48) = (c = CHR ''0'')" "((of_char c :: nat) = 49) = (c = CHR ''1'')"
proof -
  have "((of_char c :: nat) = of_char (CHR ''0'')) = (c = CHR ''0'')"
    by (rule of_char_eq_iff)
  then show "((of_char c :: nat) = 48) = (c = CHR ''0'')" by simp
  have "((of_char c :: nat) = of_char (CHR ''1'')) = (c = CHR ''1'')"
    by (rule of_char_eq_iff)
  then show "((of_char c :: nat) = 49) = (c = CHR ''1'')" by simp
qed

lemma mod_in_block:
  fixes s :: nat
  assumes "k * m \<le> s" "s < k * m + m"
  shows "s mod m = s - k * m"
proof -
  have "s = (s - k * m) + k * m" using assms by simp
  then have "s mod m = ((s - k * m) + k * m) mod m" by simp
  also have "\<dots> = (s - k * m) mod m" by simp
  also have "\<dots> = s - k * m" using assms by simp
  finally show ?thesis .
qed

lemma lead2: "(194::nat) \<le> s \<Longrightarrow> s \<le> 223 \<Longrightarrow> 2 \<le> s mod 32"
  using mod_in_block [of 6 32 s] by simp

lemma lead3: "(225::nat) \<le> s \<Longrightarrow> s \<le> 239 \<Longrightarrow> 1 \<le> s mod 16"
  using mod_in_block [of 14 16 s] by simp

lemma lead4: "(241::nat) \<le> s \<Longrightarrow> s \<le> 244 \<Longrightarrow> 1 \<le> s mod 8"
  using mod_in_block [of 30 8 s] by simp

lemma second3: "(160::nat) \<le> s \<Longrightarrow> s \<le> 191 \<Longrightarrow> 32 \<le> s mod 64"
  using mod_in_block [of 2 64 s] by simp

lemma second4: "(144::nat) \<le> s \<Longrightarrow> s \<le> 191 \<Longrightarrow> 16 \<le> s mod 64"
  using mod_in_block [of 2 64 s] by simp

lemma acceptRange_cases:
  assumes "acceptRange s0 = Some (sz, lo, hi)"
  shows "(sz = 2 \<and> 194 \<le> s0 \<and> s0 \<le> 223)
       \<or> (sz = 3 \<and> lo = 160 \<and> hi = 191)
       \<or> (sz = 3 \<and> 225 \<le> s0 \<and> s0 \<le> 239)
       \<or> (sz = 4 \<and> lo = 144 \<and> hi = 191)
       \<or> (sz = 4 \<and> 241 \<le> s0 \<and> s0 \<le> 244)"
  using assms unfolding acceptRange_def
  by (auto split: if_splits)

lemma acceptRange_bounds:
  assumes "acceptRange s0 = Some (sz, lo, hi)" "lo \<le> s1" "s1 \<le> hi"
  shows "(sz = 2 \<or> sz = 3 \<or> sz = 4)
       \<and> (sz = 2 \<longrightarrow> 2 \<le> s0 mod 32)
       \<and> (sz = 3 \<longrightarrow> 1 \<le> s0 mod 16 \<or> 32 \<le> s1 mod 64)
       \<and> (sz = 4 \<longrightarrow> 1 \<le> s0 mod 8 \<or> 16 \<le> s1 mod 64)"
  using acceptRange_cases [OF assms(1)] assms(2,3)
  by (auto dest: lead2 lead3 lead4 second3 second4)

lemma decodeRune_ge:
  assumes "\<not> (of_char c :: nat) < 128"
  shows "50 \<le> fst (decodeRune c cs)"
proof (cases "acceptRange (of_char c)")
  case None
  then show ?thesis using assms by (simp add: decodeRune_def RuneError_def)
next
  case (Some t)
  obtain sz lo hi where t: "t = (sz, lo, hi)" by (cases t) auto
  define s1 :: nat where "s1 = of_char (cs ! 0)"
  show ?thesis
  proof (cases "lo \<le> s1 \<and> s1 \<le> hi")
    case False
    then show ?thesis using assms Some t
      by (auto simp add: decodeRune_def RuneError_def Let_def s1_def)
  next
    case True
    note b = acceptRange_bounds [of "of_char c" sz lo hi s1]
    from True b Some t consider
        (two) "sz = 2" "2 \<le> (of_char c :: nat) mod 32"
      | (three) "sz = 3" "1 \<le> (of_char c :: nat) mod 16 \<or> 32 \<le> s1 mod 64"
      | (four) "sz = 4" "1 \<le> (of_char c :: nat) mod 8 \<or> 16 \<le> s1 mod 64"
      by auto
    then show ?thesis
    proof cases
      case two
      then show ?thesis using assms Some t True
        by (simp add: decodeRune_def RuneError_def Let_def s1_def)
    next
      case three
      then show ?thesis using assms Some t True
        by (auto simp add: decodeRune_def RuneError_def Let_def s1_def)
    next
      case four
      then show ?thesis using assms Some t True
        by (auto simp add: decodeRune_def RuneError_def Let_def s1_def)
    qed
  qed
qed

lemma decodeRune_other:
  assumes "c \<noteq> CHR ''0''" "c \<noteq> CHR ''1''"
  shows "fst (decodeRune c cs) \<noteq> 48 \<and> fst (decodeRune c cs) \<noteq> 49"
proof (cases "(of_char c :: nat) < 128")
  case True
  then show ?thesis using assms by (simp add: decodeRune_def of_char_binary)
next
  case False
  then show ?thesis using decodeRune_ge [of c cs] by simp
qed

lemma decodeRune_binary:
  "c = CHR ''0'' \<or> c = CHR ''1'' \<Longrightarrow> decodeRune c cs = (of_char c, 0)"
  by (auto simp: decodeRune_def)

lemma char_of_small:
  fixes r :: nat
  assumes "r < 256"
  shows "(char_of r = CHR ''0'') = (r = 48)" "(char_of r = CHR ''1'') = (r = 49)"
proof -
  have r: "of_char (char_of r) = r" using assms by simp
  have "(char_of r = CHR ''0'') = ((of_char (char_of r) :: nat) = 48)"
    by (simp only: of_char_binary)
  then show "(char_of r = CHR ''0'') = (r = 48)" using r by simp
  have "(char_of r = CHR ''1'') = ((of_char (char_of r) :: nat) = 49)"
    by (simp only: of_char_binary)
  then show "(char_of r = CHR ''1'') = (r = 49)" using r by simp
qed

lemma runeToString_binary:
  "(runeToString r = ''0'') = (r = 48)" "(runeToString r = ''1'') = (r = 49)"
  by (auto simp: runeToString_def char_of_small)

section \<open>The automaton that NewModThreeFSM builds\<close>

lemma NewModThreeFSM_automaton:
  assumes "NewModThreeFSM h0 = (m, h)"
  shows "elems h (Alphabet (automaton m)) = [''0'', ''1'']"
    and "elems h (States (automaton m)) = [''S0'', ''S1'', ''S2'']"
    and "elems h (AcceptingStates (automaton m)) = [''S0'', ''S1'', ''S2'']"
    and "InitialState (automaton m) = ''S0''"
    and "TransitionFunction (automaton m) = transitionFunction"
  using assms
  by (auto simp: NewModThreeFSM_def makeSlice_def NewFiniteAutomaton_def elems_def
      nth_append)

lemma isValidSymbol_binary:
  assumes "elems h (Alphabet fa) = [''0'', ''1'']"
  shows "isValidSymbol h fa (runeToString r) = (r = 48 \<or> r = 49)"
  using assms runeToString_binary [of r]
  by (auto simp: isValidSymbol_def)

section \<open>Validation\<close>

lemma rangeFrom_binary:
  "c = CHR ''0'' \<or> c = CHR ''1'' \<Longrightarrow>
     rangeFrom i (c # cs) = (i, of_char c) # rangeFrom (Suc i) cs"
  by (simp add: decodeRune_binary)

lemma validateLoop_binary:
  "isBinary s \<Longrightarrow> validateLoop (rangeFrom i s) = None"
proof (induction s arbitrary: i)
  case Nil
  then show ?case by simp
next
  case (Cons c cs)
  then have c: "c = CHR ''0'' \<or> c = CHR ''1''" and cs: "isBinary cs"
    by (simp_all add: isBinary_def)
  have "rangeFrom i (c # cs) = (i, of_char c) # rangeFrom (Suc i) cs"
    by (rule rangeFrom_binary [OF c])
  then show ?case using c Cons.IH [OF cs] by auto
qed

lemma validateLoop_first:
  "\<not> isBinary s \<Longrightarrow>
     \<exists>c cs. dropWhile (\<lambda>c. c = CHR ''0'' \<or> c = CHR ''1'') s = c # cs
       \<and> validateLoop (rangeFrom i s) =
           Some (InvalidDigit (fst (decodeRune c cs))
                   (i + length (takeWhile (\<lambda>c. c = CHR ''0'' \<or> c = CHR ''1'') s)))"
proof (induction s arbitrary: i)
  case Nil
  then show ?case by (simp add: isBinary_def)
next
  case (Cons c cs)
  show ?case
  proof (cases "c = CHR ''0'' \<or> c = CHR ''1''")
    case True
    then have "\<not> isBinary cs" using Cons.prems by (auto simp: isBinary_def)
    from Cons.IH [OF this, of "Suc i"] True show ?thesis
      by (auto simp: rangeFrom_binary [OF True] simp del: rangeFrom.simps)
  next
    case False
    then have r: "fst (decodeRune c cs) \<noteq> 48 \<and> fst (decodeRune c cs) \<noteq> 49"
      using decodeRune_other [of c cs] by simp
    then show ?thesis using False by (auto split: prod.splits)
  qed
qed


section \<open>The automaton tracks the value modulo three\<close>

lemma parseBinaryFrom_Cons:
  "parseBinaryFrom n (c # cs) = parseBinaryFrom (2 * n + binaryDigit c) cs"
  by (simp add: parseBinaryFrom_def)

lemma parseBinaryFrom_split:
  "parseBinaryFrom n cs = n * 2 ^ length cs + parseBinaryFrom 0 cs"
proof (induction cs arbitrary: n)
  case Nil
  then show ?case by (simp add: parseBinaryFrom_def)
next
  case (Cons c cs)
  have "parseBinaryFrom n (c # cs) = (2 * n + binaryDigit c) * 2 ^ length cs + parseBinaryFrom 0 cs"
    using Cons.IH [of "2 * n + binaryDigit c"] by (simp add: parseBinaryFrom_Cons)
  moreover have "parseBinaryFrom 0 (c # cs) = binaryDigit c * 2 ^ length cs + parseBinaryFrom 0 cs"
    using Cons.IH [of "binaryDigit c"] by (simp add: parseBinaryFrom_Cons)
  ultimately show ?case by (simp add: algebra_simps)
qed

lemma parseBinaryFrom_mod:
  "parseBinaryFrom n cs mod 3 = parseBinaryFrom (n mod 3) cs mod 3"
proof -
  have "(n * 2 ^ length cs + parseBinaryFrom 0 cs) mod 3
      = ((n mod 3) * 2 ^ length cs + parseBinaryFrom 0 cs) mod 3"
    by (metis mod_add_left_eq mod_mult_left_eq)
  then show ?thesis
    using parseBinaryFrom_split [of n cs] parseBinaryFrom_split [of "n mod 3" cs] by simp
qed

lemma parseBinaryFrom_ge: "n * 2 ^ length cs \<le> parseBinaryFrom n cs"
  using parseBinaryFrom_split [of n cs] by simp

lemma transitionFunction_closed:
  "q \<in> {''S0'', ''S1'', ''S2''} \<Longrightarrow> transitionFunction q a \<in> {''S0'', ''S1'', ''S2''}"
  by (auto simp: transitionFunction_def)

lemma transitionFunction_remainder:
  assumes "q \<in> {''S0'', ''S1'', ''S2''}" "c = CHR ''0'' \<or> c = CHR ''1''"
  shows "stateToRemainder (transitionFunction q [c])
       = int ((2 * nat (stateToRemainder q) + binaryDigit c) mod 3)"
  using assms
  by (auto simp: transitionFunction_def stateToRemainder_def binaryDigit_def)

lemma processLoop_binary:
  assumes "elems h (Alphabet fa) = [''0'', ''1'']"
    and "TransitionFunction fa = transitionFunction"
  shows "isBinary cs \<Longrightarrow> q \<in> {''S0'', ''S1'', ''S2''} \<Longrightarrow>
    \<exists>q'. processLoop h fa q (rangeFrom i cs) = Inr q' \<and> q' \<in> {''S0'', ''S1'', ''S2''}
       \<and> stateToRemainder q' = int (parseBinaryFrom (nat (stateToRemainder q)) cs mod 3)"
proof (induction cs arbitrary: q i)
  case Nil
  then show ?case
    by (auto simp: parseBinaryFrom_def stateToRemainder_def)
next
  case (Cons c cs)
  then have c: "c = CHR ''0'' \<or> c = CHR ''1''" and cs: "isBinary cs"
    by (simp_all add: isBinary_def)
  define q1 where "q1 = transitionFunction q [c]"
  have q1: "q1 \<in> {''S0'', ''S1'', ''S2''}"
    unfolding q1_def by (rule transitionFunction_closed [OF Cons.prems(2)])
  have sym: "runeToString (of_char c) = [c]"
    using c by (auto simp: runeToString_def)
  have valid: "isValidSymbol h fa [c]"
    using c assms(1) by (auto simp: isValidSymbol_def)
  have step: "processLoop h fa q (rangeFrom i (c # cs)) = processLoop h fa q1 (rangeFrom (Suc i) cs)"
    using sym valid assms(2)
    by (simp add: rangeFrom_binary [OF c] q1_def del: rangeFrom.simps)
  from Cons.IH [OF cs q1, of "Suc i"] obtain q' where
    q': "processLoop h fa q1 (rangeFrom (Suc i) cs) = Inr q'" "q' \<in> {''S0'', ''S1'', ''S2''}"
      "stateToRemainder q' = int (parseBinaryFrom (nat (stateToRemainder q1)) cs mod 3)"
    by blast
  have "nat (stateToRemainder q1) = (2 * nat (stateToRemainder q) + binaryDigit c) mod 3"
    using transitionFunction_remainder [OF Cons.prems(2) c] by (simp add: q1_def)
  then have "parseBinaryFrom (nat (stateToRemainder q1)) cs mod 3
           = parseBinaryFrom (nat (stateToRemainder q)) (c # cs) mod 3"
    using parseBinaryFrom_mod [of "2 * nat (stateToRemainder q) + binaryDigit c" cs]
    by (simp add: parseBinaryFrom_Cons)
  then show ?case using step q' by simp
qed


section \<open>Parsing a validated input\<close>

lemma parseUintLoop_binary:
  "isBinary cs \<Longrightarrow> n < 2 ^ 64 \<Longrightarrow>
     parseUintLoop n cs =
       (if parseBinaryFrom n cs < 2 ^ 64 then Inr (parseBinaryFrom n cs) else Inl ErrRange)"
proof (induction cs arbitrary: n)
  case Nil
  then show ?case by (simp add: parseBinaryFrom_def)
next
  case (Cons c cs)
  then have c: "c = CHR ''0'' \<or> c = CHR ''1''" and cs: "isBinary cs"
    by (simp_all add: isBinary_def)
  have d: "binaryDigit c \<le> 1" by (simp add: binaryDigit_def)
  show ?case
  proof (cases "2 ^ 63 \<le> n")
    case True
    have "(2::nat) ^ 64 \<le> 2 * n + binaryDigit c" using True by simp
    also have "\<dots> \<le> (2 * n + binaryDigit c) * 2 ^ length cs" by simp
    also have "\<dots> \<le> parseBinaryFrom n (c # cs)"
      using parseBinaryFrom_ge [of "2 * n + binaryDigit c" cs]
      by (simp add: parseBinaryFrom_Cons)
    finally have "2 ^ 64 \<le> parseBinaryFrom n (c # cs)" .
    then show ?thesis using True c by auto
  next
    case False
    then have small: "2 * n + binaryDigit c < 2 ^ 64" using d by simp
    then have m1: "(n * 2) mod 2 ^ 64 = n * 2" by simp
    have m2: "(n * 2 + binaryDigit c) mod 2 ^ 64 = n * 2 + binaryDigit c"
      using small by (simp add: mult.commute)
    have "parseUintLoop n (c # cs) = parseUintLoop (n * 2 + binaryDigit c) cs"
      using c False small m1 m2 by (auto simp: Let_def binaryDigit_def)
    also have "\<dots> = (if parseBinaryFrom (n * 2 + binaryDigit c) cs < 2 ^ 64
                     then Inr (parseBinaryFrom (n * 2 + binaryDigit c) cs) else Inl ErrRange)"
      using Cons.IH [OF cs, of "n * 2 + binaryDigit c"] small by (simp add: mult.commute)
    finally show ?thesis by (simp add: parseBinaryFrom_Cons mult.commute)
  qed
qed

lemma ParseInt_binary:
  assumes "s \<noteq> []" "isBinary s"
  shows "ParseInt s =
          (if parseBinary s < 2 ^ 63 then Inr (int (parseBinary s)) else Inl ErrRange)"
proof -
  from assms obtain c cs where s: "s = c # cs" by (cases s) auto
  with assms(2) have c: "c = CHR ''0'' \<or> c = CHR ''1''" by (simp add: isBinary_def)
  have u: "ParseUint s =
      (if parseBinary s < 2 ^ 64 then Inr (parseBinary s) else Inl ErrRange)"
    using parseUintLoop_binary [OF assms(2), of 0] assms(1)
    by (simp add: ParseUint_def parseBinary_def)
  have sign: "hd s \<noteq> CHR ''+''" "hd s \<noteq> CHR ''-''" using s c by auto
  show ?thesis
  proof (cases "parseBinary s < 2 ^ 64")
    case True
    then show ?thesis using u sign assms(1) by (simp add: ParseInt_def Let_def)
  next
    case False
    then show ?thesis using u sign assms(1) by (simp add: ParseInt_def Let_def)
  qed
qed

section \<open>ModThree on a validated input\<close>

lemma goRem_nat: "goRem (int v) 3 = int (v mod 3)"
  by (simp add: goRem_def zmod_int)

lemma validateInput_binary:
  "s \<noteq> [] \<Longrightarrow> isBinary s \<Longrightarrow> validateInput s = None"
  by (simp add: validateInput_def rangeString_def validateLoop_binary)

lemma ProcessInput_binary:
  assumes "NewModThreeFSM h0 = (m, h)" "isBinary s"
  shows "\<exists>q. ProcessInput h (automaton m) s = Inr q \<and> q \<in> {''S0'', ''S1'', ''S2''}
           \<and> stateToRemainder q = int (parseBinary s mod 3)"
  using processLoop_binary [OF NewModThreeFSM_automaton(1) [OF assms(1)]
      NewModThreeFSM_automaton(5) [OF assms(1)] assms(2), of "''S0''" 0]
    NewModThreeFSM_automaton(4) [OF assms(1)]
  by (simp add: ProcessInput_def rangeString_def parseBinary_def stateToRemainder_def)

lemma ModThree_binary:
  assumes "NewModThreeFSM h0 = (m, h)" "s \<noteq> []" "isBinary s"
  shows "\<exists>q. ProcessInput h (automaton m) s = Inr q \<and> q \<in> {''S0'', ''S1'', ''S2''}
           \<and> stateToRemainder q = int (parseBinary s mod 3)
           \<and> ModThree h m s =
               (if parseBinary s < 2 ^ 63
                then Inr \<lparr>Input = s, FinalState = q, Remainder = int (parseBinary s mod 3),
                          BinaryValue = int (parseBinary s),
                          DecimalValue = int (parseBinary s)\<rparr>
                else Inl (BinaryParseError s ErrRange))"
proof -
  from ProcessInput_binary [OF assms(1,3)] obtain q where
    q: "ProcessInput h (automaton m) s = Inr q" "q \<in> {''S0'', ''S1'', ''S2''}"
       "stateToRemainder q = int (parseBinary s mod 3)"
    by blast
  have "ModThree h m s =
               (if parseBinary s < 2 ^ 63
                then Inr \<lparr>Input = s, FinalState = q, Remainder = int (parseBinary s mod 3),
                          BinaryValue = int (parseBinary s),
                          DecimalValue = int (parseBinary s)\<rparr>
                else Inl (BinaryParseError s ErrRange))"
    using q(1,3) validateInput_binary [OF assms(2,3)] ParseInt_binary [OF assms(2,3)]
    by (simp add: ModThree_def Let_def goRem_nat)
  with q show ?thesis by blast
qed

lemma validateInput_None:
  "validateInput s = None \<Longrightarrow> s \<noteq> [] \<and> isBinary s"
  using validateLoop_first [of s 0]
  by (auto simp: validateInput_def rangeString_def split: if_splits)

lemma ModThree_invalid:
  assumes "\<not> isBinary s"
  shows "\<exists>char pos. validateInput s = Some (InvalidDigit char pos)
           \<and> ModThree h m s = Inl (InvalidDigit char pos)"
proof -
  from assms have "s \<noteq> []" by (auto simp: isBinary_def)
  then show ?thesis
    using validateLoop_first [OF assms, of 0]
    by (auto simp: ModThree_def validateInput_def rangeString_def)
qed

lemma ModThree_no_mismatch:
  assumes "NewModThreeFSM h0 = (m, h)"
  shows "ModThree h m t \<noteq> Inl (VerificationMismatch a b)"
    and "ModThree h m t \<noteq> Inl (FSMProcessingError e)"
proof -
  consider (empty) "t = []" | (invalid) "\<not> isBinary t" | (binary) "t \<noteq> []" "isBinary t"
    by blast
  then have "ModThree h m t \<noteq> Inl (VerificationMismatch a b)
           \<and> ModThree h m t \<noteq> Inl (FSMProcessingError e)"
  proof cases
    case empty
    then show ?thesis by (simp add: ModThree_def validateInput_def)
  next
    case invalid
    then show ?thesis using ModThree_invalid [OF invalid, of h m] by auto
  next
    case binary
    then show ?thesis using ModThree_binary [OF assms binary] by (auto split: if_splits)
  qed
  then show "ModThree h m t \<noteq> Inl (VerificationMismatch a b)"
    and "ModThree h m t \<noteq> Inl (FSMProcessingError e)" by simp_all
qed

lemma processLoop_closed:
  assumes "TransitionFunction fa = transitionFunction"
  shows "q \<in> {''S0'', ''S1'', ''S2''} \<Longrightarrow> processLoop h fa q xs = Inr q' \<Longrightarrow>
           q' \<in> {''S0'', ''S1'', ''S2''}"
proof (induction xs arbitrary: q)
  case Nil
  then show ?case by simp
next
  case (Cons x xs)
  obtain i char where x: "x = (i, char)" by (cases x) auto
  have valid: "isValidSymbol h fa (runeToString char)"
    using Cons.prems(2) x by (auto simp: Let_def split: if_splits)
  then have "processLoop h fa (transitionFunction q (runeToString char)) xs = Inr q'"
    using Cons.prems(2) x assms by (simp add: Let_def)
  moreover have "transitionFunction q (runeToString char) \<in> {''S0'', ''S1'', ''S2''}"
    by (rule transitionFunction_closed [OF Cons.prems(1)])
  ultimately show ?case by (rule Cons.IH [rotated])
qed

lemma rangeFrom_first:
  "\<not> isBinary s \<Longrightarrow>
     \<exists>k. k = length (takeWhile (\<lambda>c. c = CHR ''0'' \<or> c = CHR ''1'') s)
       \<and> k < length s \<and> s ! k \<noteq> CHR ''0'' \<and> s ! k \<noteq> CHR ''1''
       \<and> (\<forall>j<k. s ! j = CHR ''0'' \<or> s ! j = CHR ''1'')
       \<and> k < length (rangeFrom i s)
       \<and> rangeFrom i s ! k = (i + k, fst (decodeRune (s ! k) (drop (Suc k) s)))
       \<and> (\<forall>j<k. snd (rangeFrom i s ! j) = 48 \<or> snd (rangeFrom i s ! j) = 49)
       \<and> dropWhile (\<lambda>c. c = CHR ''0'' \<or> c = CHR ''1'') s = s ! k # drop (Suc k) s"
proof (induction s arbitrary: i)
  case Nil
  then show ?case by (simp add: isBinary_def)
next
  case (Cons c cs)
  show ?case
  proof (cases "c = CHR ''0'' \<or> c = CHR ''1''")
    case False
    then show ?thesis by (auto split: prod.splits)
  next
    case True
    then have "\<not> isBinary cs" using Cons.prems by (auto simp: isBinary_def)
    from Cons.IH [OF this, of "Suc i"] obtain k where
      k: "k = length (takeWhile (\<lambda>c. c = CHR ''0'' \<or> c = CHR ''1'') cs)"
        "k < length cs" "cs ! k \<noteq> CHR ''0''" "cs ! k \<noteq> CHR ''1''"
        "\<forall>j<k. cs ! j = CHR ''0'' \<or> cs ! j = CHR ''1''"
        "k < length (rangeFrom (Suc i) cs)"
        "rangeFrom (Suc i) cs ! k = (Suc i + k, fst (decodeRune (cs ! k) (drop (Suc k) cs)))"
        "\<forall>j<k. snd (rangeFrom (Suc i) cs ! j) = 48 \<or> snd (rangeFrom (Suc i) cs ! j) = 49"
        "dropWhile (\<lambda>c. c = CHR ''0'' \<or> c = CHR ''1'') cs = cs ! k # drop (Suc k) cs"
      by blast
    have r: "rangeFrom i (c # cs) = (i, of_char c) # rangeFrom (Suc i) cs"
      by (rule rangeFrom_binary [OF True])
    have d: "(of_char c :: nat) = 48 \<or> (of_char c :: nat) = 49"
      using True by auto
    have bytes: "\<forall>j<Suc k. (c # cs) ! j = CHR ''0'' \<or> (c # cs) ! j = CHR ''1''"
      using True k(5) by (auto simp: nth_Cons split: nat.splits)
    have runes: "\<forall>j<Suc k. snd (rangeFrom i (c # cs) ! j) = 48
                   \<or> snd (rangeFrom i (c # cs) ! j) = 49"
      unfolding r using d k(8) by (auto simp: nth_Cons split: nat.splits)
    have "Suc k = length (takeWhile (\<lambda>c. c = CHR ''0'' \<or> c = CHR ''1'') (c # cs))"
      using True k(1) by simp
    moreover have "Suc k < length (c # cs)" using k(2) by simp
    moreover have "(c # cs) ! Suc k \<noteq> CHR ''0''" "(c # cs) ! Suc k \<noteq> CHR ''1''"
      using k(3,4) by simp_all
    moreover have "Suc k < length (rangeFrom i (c # cs))" unfolding r using k(6) by simp
    moreover have "rangeFrom i (c # cs) ! Suc k
        = (i + Suc k, fst (decodeRune ((c # cs) ! Suc k) (drop (Suc (Suc k)) (c # cs))))"
      unfolding r using k(7) by simp
    moreover have "dropWhile (\<lambda>c. c = CHR ''0'' \<or> c = CHR ''1'') (c # cs)
        = (c # cs) ! Suc k # drop (Suc (Suc k)) (c # cs)"
      using True k(9) by simp
    ultimately show ?thesis using bytes runes by blast
  qed
qed

lemma parseBinary_leading_zero: "parseBinary (CHR ''0'' # s) = parseBinary s"
  by (simp add: parseBinary_def parseBinaryFrom_Cons binaryDigit_def)

lemma isBinary_leading_zero: "isBinary s \<Longrightarrow> isBinary (CHR ''0'' # s)"
  by (simp add: isBinary_def)

lemma remainderOf_binary:
  assumes "NewModThreeFSM h0 = (m, h)" "s \<noteq> []" "isBinary s"
  shows "remainderOf (ModThree h m s) =
           (if parseBinary s < 2 ^ 63 then Some (int (parseBinary s mod 3)) else None)"
  using ModThree_binary [OF assms] by (auto simp: remainderOf_def)

lemma parseBinary_long:
  assumes "64 \<le> length s" "hd s = CHR ''1''"
  shows "2 ^ 63 \<le> parseBinary s"
proof -
  from assms obtain cs where s: "s = CHR ''1'' # cs" by (cases s) auto
  with assms(1) have len: "63 \<le> length cs" by simp
  have "(2::nat) ^ 63 \<le> 2 ^ length cs" by (rule power_increasing [OF len]) simp
  also have "\<dots> \<le> parseBinaryFrom 1 cs" using parseBinaryFrom_ge [of 1 cs] by simp
  also have "\<dots> = parseBinary s"
    by (simp add: s parseBinary_def parseBinaryFrom_Cons binaryDigit_def)
  finally show ?thesis .
qed

section \<open>What processing reads of the store\<close>

text \<open>
  \<open>ProcessInput\<close> writes nothing: it returns a state or an error and no store. Of the
  store it reads the elements of the alphabet slice only.
\<close>

lemma processLoop_reads_alphabet:
  assumes "elems h (Alphabet fa) = elems h' (Alphabet fa)"
  shows "processLoop h fa q xs = processLoop h' fa q xs"
proof (induction xs arbitrary: q)
  case Nil
  then show ?case by simp
next
  case (Cons x xs)
  obtain i char where x: "x = (i, char)" by (cases x) auto
  show ?case using assms Cons.IH by (simp add: x isValidSymbol_def Let_def)
qed

lemma ProcessInput_reads_alphabet:
  "elems h (Alphabet fa) = elems h' (Alphabet fa) \<Longrightarrow>
     ProcessInput h fa input = ProcessInput h' fa input"
  unfolding ProcessInput_def by (rule processLoop_reads_alphabet)

text \<open>A character of two bytes, U+00E9, after one digit: one rune at offset 1.\<close>

lemma validateInput_two_byte_character:
  "validateInput [CHR ''0'', char_of (195 :: nat), char_of (169 :: nat), CHR ''1'']
     = Some (InvalidDigit 233 1)"
  by code_simp

section \<open>The claims\<close>

text \<open>
  C1. For every non-empty input of characters \<open>0\<close> and \<open>1\<close> whose value fits the signed
  64-bit integer that \<open>ModThree\<close> parses it into, \<open>ModThree\<close> on the automaton of
  \<open>NewModThreeFSM\<close> succeeds, and the remainder of its result is the input read as a
  base-2 numeral, modulo 3. The verification-mismatch error is returned for no input at
  all.
\<close>

theorem ModThree_arithmetic_equivalence:
  assumes "NewModThreeFSM h0 = (m, h)" "s \<noteq> []" "isBinary s" "parseBinary s < 2 ^ 63"
  shows "(\<exists>r. ModThree h m s = Inr r
            \<and> Remainder r = int (parseBinary s mod 3)
            \<and> Remainder r = stateToRemainder (FinalState r)
            \<and> DecimalValue r = int (parseBinary s))
       \<and> (\<forall>t a b. ModThree h m t \<noteq> Inl (VerificationMismatch a b))"
  using ModThree_binary [OF assms(1-3)] assms(4) ModThree_no_mismatch(1) [OF assms(1)]
  by auto

theorem ModThree_arithmetic_equivalence_witness:
  "''1101'' \<noteq> [] \<and> isBinary ''1101'' \<and> parseBinary ''1101'' = 13
   \<and> (\<exists>r. ModThree (snd (NewModThreeFSM [])) (fst (NewModThreeFSM [])) ''1101'' = Inr r
          \<and> Remainder r = 1)"
proof -
  have a: "NewModThreeFSM [] = (fst (NewModThreeFSM []), snd (NewModThreeFSM []))" by simp
  have b: "''1101'' \<noteq> []" by simp
  have c: "isBinary ''1101''" by (simp add: isBinary_def)
  have d: "parseBinary ''1101'' = 13"
    by (simp add: parseBinary_def parseBinaryFrom_def binaryDigit_def)
  then have e: "parseBinary ''1101'' < 2 ^ 63" by simp
  show ?thesis
    using ModThree_arithmetic_equivalence [OF a b c e] c d by auto
qed

text \<open>
  C2. The transition function of the mod-three automaton follows the fixed table: from
  \<open>S0\<close>, \<open>0\<close> leads to \<open>S0\<close> and \<open>1\<close> to \<open>S1\<close>; from \<open>S1\<close>, \<open>0\<close> leads to \<open>S2\<close> and \<open>1\<close>
  to \<open>S0\<close>; from \<open>S2\<close>, \<open>0\<close> leads to \<open>S1\<close> and \<open>1\<close> to \<open>S2\<close>. It maps every state of
  \<open>{S0, S1, S2}\<close> and every symbol of the alphabet to a state of \<open>{S0, S1, S2}\<close>, so
  membership of the current state in that set is kept by the processing loop from any
  state of the set, and by \<open>ProcessInput\<close> from the initial state \<open>S0\<close>.
\<close>

theorem transitionFunction_table:
  "transitionFunction ''S0'' ''0'' = ''S0'' \<and> transitionFunction ''S0'' ''1'' = ''S1''
   \<and> transitionFunction ''S1'' ''0'' = ''S2'' \<and> transitionFunction ''S1'' ''1'' = ''S0''
   \<and> transitionFunction ''S2'' ''0'' = ''S1'' \<and> transitionFunction ''S2'' ''1'' = ''S2''
   \<and> (\<forall>q \<in> {''S0'', ''S1'', ''S2''}. \<forall>a \<in> {''0'', ''1''}.
         transitionFunction q a \<in> {''S0'', ''S1'', ''S2''})
   \<and> (NewModThreeFSM h0 = (m, h) \<longrightarrow>
         TransitionFunction (automaton m) = transitionFunction
         \<and> InitialState (automaton m) = ''S0''
         \<and> (\<forall>q \<in> {''S0'', ''S1'', ''S2''}. \<forall>xs q'.
               processLoop h (automaton m) q xs = Inr q' \<longrightarrow> q' \<in> {''S0'', ''S1'', ''S2''})
         \<and> (\<forall>input q'.
               ProcessInput h (automaton m) input = Inr q' \<longrightarrow> q' \<in> {''S0'', ''S1'', ''S2''}))"
proof -
  have table:
    "transitionFunction ''S0'' ''0'' = ''S0''" "transitionFunction ''S0'' ''1'' = ''S1''"
    "transitionFunction ''S1'' ''0'' = ''S2''" "transitionFunction ''S1'' ''1'' = ''S0''"
    "transitionFunction ''S2'' ''0'' = ''S1''" "transitionFunction ''S2'' ''1'' = ''S2''"
    by (simp_all add: transitionFunction_def)
  have closed: "\<forall>q \<in> {''S0'', ''S1'', ''S2''}. \<forall>a \<in> {''0'', ''1''}.
         transitionFunction q a \<in> {''S0'', ''S1'', ''S2''}"
    using transitionFunction_closed by blast
  have run: "TransitionFunction (automaton m) = transitionFunction
         \<and> InitialState (automaton m) = ''S0''
         \<and> (\<forall>q \<in> {''S0'', ''S1'', ''S2''}. \<forall>xs q'.
               processLoop h (automaton m) q xs = Inr q' \<longrightarrow> q' \<in> {''S0'', ''S1'', ''S2''})
         \<and> (\<forall>input q'.
               ProcessInput h (automaton m) input = Inr q' \<longrightarrow> q' \<in> {''S0'', ''S1'', ''S2''})"
    if new: "NewModThreeFSM h0 = (m, h)"
  proof -
    note tf = NewModThreeFSM_automaton(5) [OF new]
    note init = NewModThreeFSM_automaton(4) [OF new]
    have loop: "\<forall>q \<in> {''S0'', ''S1'', ''S2''}. \<forall>xs q'.
               processLoop h (automaton m) q xs = Inr q' \<longrightarrow> q' \<in> {''S0'', ''S1'', ''S2''}"
      using processLoop_closed [OF tf] by blast
    then have "\<forall>input q'.
               ProcessInput h (automaton m) input = Inr q' \<longrightarrow> q' \<in> {''S0'', ''S1'', ''S2''}"
      using init unfolding ProcessInput_def by simp
    with tf init loop show ?thesis by blast
  qed
  show ?thesis using table closed run by blast
qed

theorem transitionFunction_table_witness:
  "''S1'' \<in> {''S0'', ''S1'', ''S2''} \<and> ''0'' \<in> {''0'', ''1''}
   \<and> transitionFunction ''S1'' ''0'' \<in> {''S0'', ''S1'', ''S2''}
   \<and> ProcessInput (snd (NewModThreeFSM [])) (automaton (fst (NewModThreeFSM []))) ''10'' = Inr ''S2''
   \<and> ''S2'' \<in> {''S0'', ''S1'', ''S2''}"
proof -
  have a: "NewModThreeFSM [] = (fst (NewModThreeFSM []), snd (NewModThreeFSM []))" by simp
  have run: "ProcessInput (snd (NewModThreeFSM [])) (automaton (fst (NewModThreeFSM []))) ''10''
               = Inr ''S2''"
    by code_simp
  show ?thesis
    using transitionFunction_table [of "[]" "fst (NewModThreeFSM [])" "snd (NewModThreeFSM [])"]
      a run
    by simp
qed

text \<open>
  C4. \<open>ProcessInput\<close> on the empty input is no failure: for every automaton it returns
  the automaton's initial state and no error.
\<close>

theorem ProcessInput_empty: "ProcessInput h fa [] = Inr (InitialState fa)"
  by (simp add: ProcessInput_def rangeString_def)

theorem ProcessInput_empty_witness:
  "ProcessInput [] \<lparr>States = \<lparr>ptr = 0, len = 0\<rparr>, Alphabet = \<lparr>ptr = 0, len = 0\<rparr>,
      InitialState = ''idle'', AcceptingStates = \<lparr>ptr = 0, len = 0\<rparr>,
      TransitionFunction = (\<lambda>q a. q)\<rparr> [] = Inr ''idle''"
  using ProcessInput_empty [of "[]" "\<lparr>States = \<lparr>ptr = 0, len = 0\<rparr>,
      Alphabet = \<lparr>ptr = 0, len = 0\<rparr>, InitialState = ''idle'',
      AcceptingStates = \<lparr>ptr = 0, len = 0\<rparr>, TransitionFunction = (\<lambda>q a. q)\<rparr>"]
  by simp

text \<open>
  C5. \<open>ModThree\<close> on the empty string fails with the empty-input error: validation
  rejects it, so the result does not depend on the automaton or the store, and no
  \<open>ModThreeResult\<close> is produced.
\<close>

theorem ModThree_empty:
  "validateInput [] = Some EmptyInput \<and> ModThree h m [] = Inl EmptyInput"
  by (simp add: ModThree_def validateInput_def)

theorem ModThree_empty_witness:
  "ModThree (snd (NewModThreeFSM [])) (fst (NewModThreeFSM [])) [] = Inl EmptyInput"
  using ModThree_empty [of "snd (NewModThreeFSM [])" "fst (NewModThreeFSM [])"]
  by simp

text \<open>
  C6. \<open>stateToRemainder\<close> is a total function with no failure: it maps \<open>S0\<close> to 0, \<open>S1\<close>
  to 1, \<open>S2\<close> to 2 and every other state to -1.
\<close>

theorem stateToRemainder_total:
  "stateToRemainder ''S0'' = 0 \<and> stateToRemainder ''S1'' = 1 \<and> stateToRemainder ''S2'' = 2
   \<and> (state \<notin> {''S0'', ''S1'', ''S2''} \<longrightarrow> stateToRemainder state = - 1)
   \<and> stateToRemainder state \<in> {0, 1, 2, - 1}"
  by (simp add: stateToRemainder_def)

theorem stateToRemainder_total_witness:
  "''S3'' \<notin> {''S0'', ''S1'', ''S2''} \<and> stateToRemainder ''S3'' = - 1
   \<and> [] \<notin> {''S0'', ''S1'', ''S2''} \<and> stateToRemainder [] = - 1"
  using stateToRemainder_total [of "''S3''"] stateToRemainder_total [of "[]"]
  by simp

text \<open>
  C3. For an input with a character other than \<open>0\<close> and \<open>1\<close>, \<open>ModThree\<close> fails with the
  invalid-digit error that \<open>validateInput\<close> returns, before the automaton is run. The
  error carries the first offending character and its position, counted from zero: every
  earlier character is a digit, and the position is both the byte offset and the index
  of the character in the sequence the range loop decodes. \<open>102\<close> reports position 2,
  \<open>a\<close> position 0 and \<open>01a\<close> position 2.
\<close>

theorem ModThree_invalid_digit:
  assumes "\<exists>c \<in> set s. c \<noteq> CHR ''0'' \<and> c \<noteq> CHR ''1''"
  shows "(\<exists>char pos.
            validateInput s = Some (InvalidDigit char pos)
          \<and> ModThree h m s = Inl (InvalidDigit char pos)
          \<and> pos < length s \<and> s ! pos \<noteq> CHR ''0'' \<and> s ! pos \<noteq> CHR ''1''
          \<and> (\<forall>j<pos. s ! j = CHR ''0'' \<or> s ! j = CHR ''1'')
          \<and> pos < length (rangeString s) \<and> rangeString s ! pos = (pos, char)
          \<and> char \<noteq> 48 \<and> char \<noteq> 49
          \<and> (\<forall>j<pos. snd (rangeString s ! j) = 48 \<or> snd (rangeString s ! j) = 49))
       \<and> ModThree h m ''102'' = Inl (InvalidDigit (of_char (CHR ''2'')) 2)
       \<and> ModThree h m ''a'' = Inl (InvalidDigit (of_char (CHR ''a'')) 0)
       \<and> ModThree h m ''01a'' = Inl (InvalidDigit (of_char (CHR ''a'')) 2)"
proof -
  from assms have nb: "\<not> isBinary s" by (auto simp: isBinary_def)
  then have ne: "s \<noteq> []" by (auto simp: isBinary_def)
  from rangeFrom_first [OF nb, of 0] obtain k where
    k: "k = length (takeWhile (\<lambda>c. c = CHR ''0'' \<or> c = CHR ''1'') s)"
      "k < length s" "s ! k \<noteq> CHR ''0''" "s ! k \<noteq> CHR ''1''"
      "\<forall>j<k. s ! j = CHR ''0'' \<or> s ! j = CHR ''1''"
      "k < length (rangeFrom 0 s)"
      "rangeFrom 0 s ! k = (0 + k, fst (decodeRune (s ! k) (drop (Suc k) s)))"
      "\<forall>j<k. snd (rangeFrom 0 s ! j) = 48 \<or> snd (rangeFrom 0 s ! j) = 49"
      "dropWhile (\<lambda>c. c = CHR ''0'' \<or> c = CHR ''1'') s = s ! k # drop (Suc k) s"
    by blast
  define char where "char = fst (decodeRune (s ! k) (drop (Suc k) s))"
  have v: "validateInput s = Some (InvalidDigit char k)"
    using validateLoop_first [OF nb, of 0] k(1,9) ne
    by (auto simp: validateInput_def rangeString_def char_def)
  then have mt: "ModThree h m s = Inl (InvalidDigit char k)"
    by (simp add: ModThree_def)
  have ch: "char \<noteq> 48 \<and> char \<noteq> 49"
    unfolding char_def by (rule decodeRune_other [OF k(3,4)])
  have general: "\<exists>char pos.
            validateInput s = Some (InvalidDigit char pos)
          \<and> ModThree h m s = Inl (InvalidDigit char pos)
          \<and> pos < length s \<and> s ! pos \<noteq> CHR ''0'' \<and> s ! pos \<noteq> CHR ''1''
          \<and> (\<forall>j<pos. s ! j = CHR ''0'' \<or> s ! j = CHR ''1'')
          \<and> pos < length (rangeString s) \<and> rangeString s ! pos = (pos, char)
          \<and> char \<noteq> 48 \<and> char \<noteq> 49
          \<and> (\<forall>j<pos. snd (rangeString s ! j) = 48 \<or> snd (rangeString s ! j) = 49)"
    using v mt ch k(2-8) unfolding rangeString_def char_def by auto
  have ex: "ModThree h m ''102'' = Inl (InvalidDigit (of_char (CHR ''2'')) 2)"
       "ModThree h m ''a'' = Inl (InvalidDigit (of_char (CHR ''a'')) 0)"
       "ModThree h m ''01a'' = Inl (InvalidDigit (of_char (CHR ''a'')) 2)"
    by (simp_all add: ModThree_def validateInput_def rangeString_def decodeRune_def)
  show ?thesis using general ex by blast
qed

theorem ModThree_invalid_digit_witness:
  "(\<exists>c \<in> set ''1x0y''. c \<noteq> CHR ''0'' \<and> c \<noteq> CHR ''1'')
   \<and> ModThree [] (fst (NewModThreeFSM [])) ''1x0y'' = Inl (InvalidDigit 120 1)
   \<and> (\<exists>char pos. ModThree [] (fst (NewModThreeFSM [])) ''1x0y'' = Inl (InvalidDigit char pos)
         \<and> pos < length ''1x0y'' \<and> ''1x0y'' ! pos \<noteq> CHR ''0'' \<and> ''1x0y'' ! pos \<noteq> CHR ''1'')"
proof -
  have a: "\<exists>c \<in> set ''1x0y''. c \<noteq> CHR ''0'' \<and> c \<noteq> CHR ''1''" by simp
  have b: "ModThree [] (fst (NewModThreeFSM [])) ''1x0y'' = Inl (InvalidDigit 120 1)"
    by (simp add: ModThree_def validateInput_def rangeString_def decodeRune_def)
  show ?thesis
    using ModThree_invalid_digit [OF a, of "[]" "fst (NewModThreeFSM [])"] a b
    by blast
qed

text \<open>
  C7. A leading zero does not change the computed remainder: for every non-empty input
  \<open>s\<close> of characters \<open>0\<close> and \<open>1\<close>, \<open>ModThree\<close> on \<open>0\<close> followed by \<open>s\<close> yields the
  remainder that \<open>ModThree\<close> on \<open>s\<close> yields. When the value of \<open>s\<close> fits, both calls
  return a result, with the same remainder and the same final state; otherwise both
  calls fail. In particular \<open>00101\<close> and \<open>101\<close> give the same remainder.
\<close>

theorem ModThree_leading_zero:
  assumes "NewModThreeFSM h0 = (m, h)" "s \<noteq> []" "isBinary s"
  shows "remainderOf (ModThree h m (CHR ''0'' # s)) = remainderOf (ModThree h m s)
       \<and> (parseBinary s < 2 ^ 63 \<longrightarrow>
            (\<exists>r r'. ModThree h m (CHR ''0'' # s) = Inr r' \<and> ModThree h m s = Inr r
               \<and> Remainder r' = Remainder r \<and> FinalState r' = FinalState r))
       \<and> (\<exists>r r'. ModThree h m ''00101'' = Inr r' \<and> ModThree h m ''101'' = Inr r
               \<and> Remainder r' = Remainder r)"
proof -
  have z: "CHR ''0'' # s \<noteq> []" "isBinary (CHR ''0'' # s)"
    using assms(3) by (simp_all add: isBinary_leading_zero)
  have same: "remainderOf (ModThree h m (CHR ''0'' # s)) = remainderOf (ModThree h m s)"
    using remainderOf_binary [OF assms] remainderOf_binary [OF assms(1) z]
    by (simp add: parseBinary_leading_zero)
  have fits: "\<exists>r r'. ModThree h m (CHR ''0'' # s) = Inr r' \<and> ModThree h m s = Inr r
               \<and> Remainder r' = Remainder r \<and> FinalState r' = FinalState r"
    if "parseBinary s < 2 ^ 63"
  proof -
    from ModThree_binary [OF assms] that obtain q where
      q: "stateToRemainder q = int (parseBinary s mod 3)" "q \<in> {''S0'', ''S1'', ''S2''}"
        "ModThree h m s = Inr \<lparr>Input = s, FinalState = q,
           Remainder = int (parseBinary s mod 3), BinaryValue = int (parseBinary s),
           DecimalValue = int (parseBinary s)\<rparr>"
      by auto
    from ModThree_binary [OF assms(1) z] that obtain q' where
      q': "stateToRemainder q' = int (parseBinary s mod 3)" "q' \<in> {''S0'', ''S1'', ''S2''}"
        "ModThree h m (CHR ''0'' # s) = Inr \<lparr>Input = CHR ''0'' # s, FinalState = q',
           Remainder = int (parseBinary s mod 3), BinaryValue = int (parseBinary s),
           DecimalValue = int (parseBinary s)\<rparr>"
      by (auto simp: parseBinary_leading_zero)
    have "q' = q" using q(1,2) q'(1,2) by (auto simp: stateToRemainder_def)
    then show ?thesis using q(3) q'(3) by simp
  qed
  have b1: "''101'' \<noteq> []" "isBinary ''101''" "parseBinary ''101'' = 5"
    by (simp_all add: isBinary_def parseBinary_def parseBinaryFrom_def binaryDigit_def)
  have b2: "''00101'' \<noteq> []" "isBinary ''00101''" "parseBinary ''00101'' = 5"
    by (simp_all add: isBinary_def parseBinary_def parseBinaryFrom_def binaryDigit_def)
  have ex: "\<exists>r r'. ModThree h m ''00101'' = Inr r' \<and> ModThree h m ''101'' = Inr r
               \<and> Remainder r' = Remainder r"
    using ModThree_binary [OF assms(1) b1(1,2)] ModThree_binary [OF assms(1) b2(1,2)] b1(3) b2(3)
    by auto
  show ?thesis using same fits ex by blast
qed

theorem ModThree_leading_zero_witness:
  "''110'' \<noteq> [] \<and> isBinary ''110'' \<and> parseBinary ''110'' < 2 ^ 63
   \<and> remainderOf (ModThree (snd (NewModThreeFSM [])) (fst (NewModThreeFSM [])) ''0110'') = Some 0
   \<and> remainderOf (ModThree (snd (NewModThreeFSM [])) (fst (NewModThreeFSM [])) ''110'') = Some 0"
proof -
  have a: "NewModThreeFSM [] = (fst (NewModThreeFSM []), snd (NewModThreeFSM []))" by simp
  have b: "''110'' \<noteq> []" "isBinary ''110''" "parseBinary ''110'' = 6"
    by (simp_all add: isBinary_def parseBinary_def parseBinaryFrom_def binaryDigit_def)
  have c: "remainderOf (ModThree (snd (NewModThreeFSM [])) (fst (NewModThreeFSM [])) ''110'')
             = Some 0"
    using remainderOf_binary [OF a b(1,2)] b(3) by simp
  show ?thesis
    using ModThree_leading_zero [OF a b(1,2)] b c by simp
qed

text \<open>
  C8. For every input that passes \<open>validateInput\<close> (non-empty, every character \<open>0\<close> or
  \<open>1\<close>), \<open>ProcessInput\<close> on the automaton of \<open>NewModThreeFSM\<close> returns a state and never
  an invalid-symbol error, so \<open>ModThree\<close> never returns the wrapped engine error: the
  alphabet is \<open>0\<close>, \<open>1\<close>, and the symbol of a decoded character is in it exactly when
  the character is \<open>0\<close> or \<open>1\<close>, the characters that validation accepts.
\<close>

theorem ProcessInput_never_invalid_symbol:
  assumes "NewModThreeFSM h0 = (m, h)" "validateInput s = None"
  shows "s \<noteq> [] \<and> isBinary s
       \<and> (\<exists>q. ProcessInput h (automaton m) s = Inr q)
       \<and> (\<forall>symbol pos alphabet.
             ProcessInput h (automaton m) s \<noteq> Inl (InvalidSymbol symbol pos alphabet))
       \<and> (\<forall>err. ModThree h m s \<noteq> Inl (FSMProcessingError err))
       \<and> elems h (Alphabet (automaton m)) = [''0'', ''1'']
       \<and> (\<forall>char. isValidSymbol h (automaton m) (runeToString char) = (char = 48 \<or> char = 49))"
proof -
  note v = validateInput_None [OF assms(2)]
  from v have ne: "s \<noteq> []" and bin: "isBinary s" by simp_all
  from ProcessInput_binary [OF assms(1) bin] obtain q where
    q: "ProcessInput h (automaton m) s = Inr q" by blast
  have alpha: "elems h (Alphabet (automaton m)) = [''0'', ''1'']"
    by (rule NewModThreeFSM_automaton(1) [OF assms(1)])
  have "\<forall>char. isValidSymbol h (automaton m) (runeToString char) = (char = 48 \<or> char = 49)"
    using isValidSymbol_binary [OF alpha] by blast
  moreover have "\<forall>err. ModThree h m s \<noteq> Inl (FSMProcessingError err)"
    using ModThree_no_mismatch(2) [OF assms(1)] by blast
  ultimately show ?thesis using v q alpha by simp
qed

theorem ProcessInput_never_invalid_symbol_witness:
  "validateInput ''1010'' = None
   \<and> (\<exists>q. ProcessInput (snd (NewModThreeFSM [])) (automaton (fst (NewModThreeFSM []))) ''1010''
            = Inr q)"
proof -
  have a: "NewModThreeFSM [] = (fst (NewModThreeFSM []), snd (NewModThreeFSM []))" by simp
  have b: "validateInput ''1010'' = None"
    by (simp add: validateInput_binary isBinary_def)
  show ?thesis
    using ProcessInput_never_invalid_symbol [OF a b] b by blast
qed

text \<open>
  C10. \<open>ModThree\<close> fails with the binary-parse error, and returns no result, for every
  non-empty input of characters \<open>0\<close> and \<open>1\<close> whose value does not fit a signed 64-bit
  integer, such as any input of 64 or more characters that begins with \<open>1\<close>; the
  input passes validation and the automaton processes it to a final state.
\<close>

theorem ModThree_overflow:
  assumes "NewModThreeFSM h0 = (m, h)" "s \<noteq> []" "isBinary s"
    and "2 ^ 63 \<le> parseBinary s \<or> (64 \<le> length s \<and> hd s = CHR ''1'')"
  shows "validateInput s = None
       \<and> (\<exists>q. ProcessInput h (automaton m) s = Inr q
              \<and> stateToRemainder q = int (parseBinary s mod 3))
       \<and> ParseInt s = Inl ErrRange
       \<and> ModThree h m s = Inl (BinaryParseError s ErrRange)"
proof -
  have big: "\<not> parseBinary s < 2 ^ 63"
    using assms(4) parseBinary_long [of s] by auto
  show ?thesis
    using ModThree_binary [OF assms(1-3)] validateInput_binary [OF assms(2,3)]
      ParseInt_binary [OF assms(2,3)] big
    by auto
qed

theorem ModThree_overflow_witness:
  "CHR ''1'' # replicate 63 (CHR ''0'') \<noteq> [] \<and> isBinary (CHR ''1'' # replicate 63 (CHR ''0''))
   \<and> 64 \<le> length (CHR ''1'' # replicate 63 (CHR ''0''))
   \<and> hd (CHR ''1'' # replicate 63 (CHR ''0'')) = CHR ''1''
   \<and> ModThree (snd (NewModThreeFSM [])) (fst (NewModThreeFSM []))
       (CHR ''1'' # replicate 63 (CHR ''0''))
     = Inl (BinaryParseError (CHR ''1'' # replicate 63 (CHR ''0'')) ErrRange)"
proof -
  have a: "NewModThreeFSM [] = (fst (NewModThreeFSM []), snd (NewModThreeFSM []))" by simp
  have b: "CHR ''1'' # replicate 63 (CHR ''0'') \<noteq> []" by simp
  have c: "isBinary (CHR ''1'' # replicate 63 (CHR ''0''))" by (simp add: isBinary_def)
  have d: "64 \<le> length (CHR ''1'' # replicate 63 (CHR ''0''))
           \<and> hd (CHR ''1'' # replicate 63 (CHR ''0'')) = CHR ''1''" by simp
  then have e: "2 ^ 63 \<le> parseBinary (CHR ''1'' # replicate 63 (CHR ''0''))
      \<or> (64 \<le> length (CHR ''1'' # replicate 63 (CHR ''0''))
          \<and> hd (CHR ''1'' # replicate 63 (CHR ''0'')) = CHR ''1'')" by blast
  show ?thesis
    using ModThree_overflow [OF a b c e] b c d by blast
qed


text \<open>
  C9. Processing does not change the automaton's definition, and the accessors are meant
  to give read-only views of it. \<open>ProcessInput\<close> indeed returns no store. The accessors
  \<open>GetStates\<close>, \<open>GetAlphabet\<close> and \<open>GetAcceptingStates\<close> however return the automaton's
  own slices: on the automaton of \<open>NewModThreeFSM\<close>, the assignment
  \<^verbatim>\<open>GetAlphabet()[0] = "2"\<close> changes the alphabet the automaton reads, after which
  \<open>ProcessInput\<close> rejects the input \<open>0\<close> that it accepted before, and the assignment
  \<^verbatim>\<open>GetAcceptingStates()[0] = "X"\<close> makes \<open>S0\<close> a state that is no longer accepting.
\<close>

theorem GetAlphabet_shares_backing_array:
  "(case NewModThreeFSM [] of
      (m, h) \<Rightarrow>
        let fa = GetAutomaton m; alphabet = GetAlphabet fa; accepting = GetAcceptingStates fa in
          elems h (Alphabet fa) = [''0'', ''1'']
        \<and> ProcessInput h fa ''0'' = Inr ''S0''
        \<and> IsAcceptingState h fa ''S0''
        \<and> (case setIndex h alphabet 0 ''2'' of
              None \<Rightarrow> False
            | Some h' \<Rightarrow>
                elems h' (Alphabet fa) = [''2'', ''1'']
              \<and> ProcessInput h' fa ''0'' = Inl (InvalidSymbol ''0'' 0 [''2'', ''1'']))
        \<and> (case setIndex h accepting 0 ''X'' of
              None \<Rightarrow> False
            | Some h' \<Rightarrow>
                elems h' (AcceptingStates fa) = [''X'', ''S1'', ''S2'']
              \<and> \<not> IsAcceptingState h' fa ''S0''))"
  by code_simp

end
